theory Spec2Isabelle
  imports Main
begin

section \<open>pss: the driver (psslib/driver.py)\<close>

text \<open>
  The development follows \<^verbatim>\<open>psslib/driver.py\<close>. The driver composes three
  collaborators whose modules are not part of the sources at hand: the file finder
  (\<^verbatim>\<open>filefinder.py\<close>), the content matcher (\<^verbatim>\<open>contentmatcher.py\<close>) and the
  binary heuristic \<^verbatim>\<open>istextfile\<close> (\<^verbatim>\<open>utils.py\<close>). The finder, the heuristic,
  the file system and the regular-expression engine are parameters of the model
  (the record \<open>env\<close>); the content matcher is modelled from the specification.
  Exceptions are values of the type \<open>error\<close>; the calls the driver makes on its
  collaborators are recorded, in order, as a list of events.
\<close>

subsection \<open>Errors\<close>

datatype error =
    KeyError string
  | TypeError
  | IOError string
  | MalformedPattern

subsection \<open>Module constants\<close>

text \<open>\<^verbatim>\<open>TYPE_EXTENSION_MAP\<close>: the dictionary, as its list of items and as a map.\<close>

definition TYPE_EXTENSION_ITEMS :: "(string \<times> string list) list" where
  "TYPE_EXTENSION_ITEMS =
    [(''actionscript'', [''.as'', ''.mxml'']),
     (''cc'', [''.c'', ''.h'', ''.xs'']),
     (''perl'', [''.pl'', ''.pm'', ''.pod'', ''.t'']),
     (''python'', [''.py'']),
     (''xml'', [''.xml'', ''.dtd'', ''.xslt'', ''.ent''])]"

definition TYPE_EXTENSION_MAP :: "string \<rightharpoonup> string list" where
  "TYPE_EXTENSION_MAP = map_of TYPE_EXTENSION_ITEMS"

definition ALL_KNOWN_EXTENSIONS :: "string set" where
  "ALL_KNOWN_EXTENSIONS = set (concat (map snd TYPE_EXTENSION_ITEMS))"

definition IGNORED_DIRS :: "string set" where
  "IGNORED_DIRS = set
    [''autom4te.cache'', ''blib'', ''_build'', ''.bzr'', ''.cdv'', ''cover_db'',
     ''CVS'', ''_darcs'', ''~.dep'', ''~.dot'', ''.git'', ''.hg'', ''~.nib'',
     ''.pc'', ''~.plst'', ''RCS'', ''SCCS'', ''_sgbak'', ''.svn'']"

text \<open>
  \<^verbatim>\<open>IGNORED_FILE_PATTERNS\<close>: four regular expressions, kept as their source
  text. The backslash is \<open>CHR 0x5C\<close>.
\<close>

definition backslash :: char where
  "backslash = CHR 0x5C"

definition IGNORED_FILE_PATTERNS :: "string set" where
  "IGNORED_FILE_PATTERNS = set
    [''~$'', ''#.+#$'',
     ''[._].*'' @ [backslash] @ ''.swp$'',
     ''core'' @ [backslash] @ ''.'' @ [backslash] @ ''d+$'']"

subsection \<open>\<^verbatim>\<open>_pattern_has_uppercase\<close>\<close>

text \<open>The test \<^verbatim>\<open>c >= 'A' and c <= 'Z'\<close> on one character.\<close>

definition is_upper :: "char \<Rightarrow> bool" where
  "is_upper c \<longleftrightarrow> (65::nat) \<le> of_char c \<and> of_char c \<le> (90::nat)"

text \<open>
  The loop of \<^verbatim>\<open>_pattern_has_uppercase\<close>, with the flag \<^verbatim>\<open>skipnext\<close> as its
  first argument: a character after an unskipped backslash is skipped, an
  unskipped uppercase letter returns \<^verbatim>\<open>True\<close>, the end of the pattern
  \<^verbatim>\<open>False\<close>.
\<close>

fun has_uppercase_loop :: "bool \<Rightarrow> string \<Rightarrow> bool" where
  "has_uppercase_loop skipnext [] = False"
| "has_uppercase_loop skipnext (c # cs) =
     (if skipnext then has_uppercase_loop False cs
      else if c = backslash then has_uppercase_loop True cs
      else if is_upper c then True
      else has_uppercase_loop skipnext cs)"

definition pattern_has_uppercase :: "string \<Rightarrow> bool" where
  "pattern_has_uppercase pattern = has_uppercase_loop False pattern"

text \<open>
  The test of lines 118 to 120 of the driver, with Python's short-circuit
  evaluation: the pattern is scanned only when \<^verbatim>\<open>ignore_case\<close> is off and
  \<^verbatim>\<open>smart_case\<close> is on, and iterating over the pattern \<^verbatim>\<open>None\<close> raises a
  \<^verbatim>\<open>TypeError\<close>. The result is the value of \<^verbatim>\<open>ignore_case\<close> handed to the
  content matcher.
\<close>

definition effective_ignore_case :: "bool \<Rightarrow> bool \<Rightarrow> string option \<Rightarrow> error + bool" where
  "effective_ignore_case ignore_case smart_case pattern =
     (if \<not> ignore_case \<and> smart_case then
        (case pattern of
           None \<Rightarrow> Inl TypeError
         | Some p \<Rightarrow> if \<not> pattern_has_uppercase p then Inr True else Inr ignore_case)
      else Inr ignore_case)"

subsection \<open>File objects and \<^verbatim>\<open>_known_file_type\<close>\<close>

text \<open>
  An open file: its name, its content and the read position. Python 2 opens
  the file in text mode, so the content is a byte string.
\<close>

record fileobj =
  name :: string
  content :: string
  pos :: nat

text \<open>\<^verbatim>\<open>fileobj.seek(0)\<close>.\<close>

definition seek0 :: "fileobj \<Rightarrow> fileobj" where
  "seek0 f = f\<lparr>pos := 0\<rparr>"

text \<open>
  \<^verbatim>\<open>str.rfind\<close> for one character: the index of its last occurrence, or \<open>-1\<close>.
\<close>

definition rfind :: "string \<Rightarrow> char \<Rightarrow> int" where
  "rfind p c =
     (if c \<in> set p
      then int (length p) - 1 - int (length (takeWhile (\<lambda>x. x \<noteq> c) (rev p)))
      else - 1)"

text \<open>
  \<^verbatim>\<open>os.path.splitext\<close> of the standard library (posixpath): the extension
  starts at the last dot, when that dot comes after the last slash and some
  character between the slash and that dot is not a dot; otherwise it is empty.
\<close>

definition splitext :: "string \<Rightarrow> string \<times> string" where
  "splitext p =
     (let sepIndex = rfind p (CHR ''/'');
          dotIndex = rfind p (CHR ''.'')
      in if dotIndex > sepIndex \<and>
            list_ex (\<lambda>x. x \<noteq> CHR ''.'')
              (take (nat (dotIndex - (sepIndex + 1))) (drop (nat (sepIndex + 1)) p))
         then (take (nat dotIndex) p, drop (nat dotIndex) p)
         else (p, []))"

definition known_file_type :: "string \<Rightarrow> bool" where
  "known_file_type filename =
     (if snd (splitext filename) \<in> ALL_KNOWN_EXTENSIONS then True else False)"

subsection \<open>The content matcher\<close>

text \<open>
  A compiled pattern is the function that gives, for a line, the spans of all
  its matches there (\<^verbatim>\<open>finditer\<close>). The cap on the number of records is a
  positive integer or unbounded (\<^verbatim>\<open>sys.maxint\<close> in the driver's signature).
\<close>

type_synonym regex = "string \<Rightarrow> (nat \<times> nat) list"

datatype max_count = Unbounded | At_most nat

record match_result =
  lineno :: nat
  line :: string
  spans :: "(nat \<times> nat) list"

record matcher =
  m_regex :: regex
  m_invert_match :: bool
  m_max_match_count :: max_count

text \<open>The arguments of the constructor call of lines 122 to 128.\<close>

record matcher_args =
  cm_pattern :: "string option"
  cm_ignore_case :: bool
  cm_invert_match :: bool
  cm_whole_words :: bool
  cm_literal_pattern :: bool
  cm_max_match_count :: max_count

text \<open>
  Modelled from the spec: the constructor of \<^verbatim>\<open>ContentMatcher\<close>
  (\<^verbatim>\<open>contentmatcher.py\<close> is missing). Construction takes the search
  configuration and compiles the pattern once, under the literal, whole-word
  and case transforms; a pattern that does not compile is an error of the
  construction. The compilation itself belongs to the regular-expression
  engine, the parameter \<open>compile\<close>.
\<close>

definition ContentMatcher ::
  "(string option \<Rightarrow> bool \<Rightarrow> bool \<Rightarrow> bool \<Rightarrow> error + regex) \<Rightarrow> matcher_args \<Rightarrow> error + matcher"
where
  "ContentMatcher compile a =
     (case compile (cm_pattern a) (cm_ignore_case a) (cm_whole_words a) (cm_literal_pattern a) of
        Inl e \<Rightarrow> Inl e
      | Inr re \<Rightarrow> Inr \<lparr>m_regex = re, m_invert_match = cm_invert_match a,
                       m_max_match_count = cm_max_match_count a\<rparr>)"

text \<open>
  The lines of a byte string, each with its terminator (the last one may have
  none), as iterating over a file gives them.
\<close>

definition newline :: char where
  "newline = CHR 0x0A"

fun readlines :: "string \<Rightarrow> string list" where
  "readlines [] = []"
| "readlines (c # cs) =
     (if c = newline then [c] # readlines cs
      else (case readlines cs of
              [] \<Rightarrow> [[c]]
            | l # ls \<Rightarrow> (c # l) # ls))"

definition strip_eol :: "string \<Rightarrow> string" where
  "strip_eol l = (if l \<noteq> [] \<and> last l = newline then butlast l else l)"

fun reached :: "max_count \<Rightarrow> nat \<Rightarrow> bool" where
  "reached Unbounded n = False"
| "reached (At_most k) n = (k \<le> n)"

text \<open>
  Modelled from the spec: \<^verbatim>\<open>ContentMatcher.match_file\<close> (missing with
  \<^verbatim>\<open>contentmatcher.py\<close>). The source is read line by line, the terminator
  kept in the record and left out of the search. Without invert-match a line
  yields a record, with all its spans, iff it has a match; with invert-match
  it yields a record with no span iff it has none. No further record is
  produced once \<open>cap\<close> records have been yielded; the count \<open>n\<close> starts at
  zero for every file, line numbers at one.
\<close>

fun match_lines :: "regex \<Rightarrow> bool \<Rightarrow> max_count \<Rightarrow> nat \<Rightarrow> nat \<Rightarrow> string list \<Rightarrow> match_result list" where
  "match_lines re invert cap n no [] = []"
| "match_lines re invert cap n no (l # ls) =
     (if reached cap n then []
      else if invert then
        (if re (strip_eol l) = []
         then \<lparr>lineno = no, line = l, spans = []\<rparr> # match_lines re invert cap (Suc n) (Suc no) ls
         else match_lines re invert cap n (Suc no) ls)
      else
        (if re (strip_eol l) \<noteq> []
         then \<lparr>lineno = no, line = l, spans = re (strip_eol l)\<rparr>
                # match_lines re invert cap (Suc n) (Suc no) ls
         else match_lines re invert cap n (Suc no) ls))"

text \<open>
  \<^verbatim>\<open>match_file(fileobj, max_match_count=...)\<close>: the cap is the override when
  one is given, the configured one otherwise; reading starts at the file
  object's position.
\<close>

definition match_file :: "matcher \<Rightarrow> fileobj \<Rightarrow> max_count option \<Rightarrow> match_result list" where
  "match_file m f override =
     match_lines (m_regex m) (m_invert_match m)
       (case override of None \<Rightarrow> m_max_match_count m | Some c \<Rightarrow> c)
       0 1 (readlines (drop (pos f) (content f)))"

subsection \<open>The arguments of \<^verbatim>\<open>pss_run\<close>\<close>

text \<open>
  The keyword arguments of \<^verbatim>\<open>pss_run\<close>. The output formatter is the
  trace of events below, so the three arguments that only configure the
  default formatter are left out.
\<close>

record args =
  roots :: "string list"
  pattern :: "string option"
  only_find_files :: bool
  search_all_types :: bool
  search_all_files_and_dirs :: bool
  add_ignored_dirs :: "string list"
  remove_ignored_dirs :: "string list"
  recurse :: bool
  type_pattern :: "string option"
  include_types :: "string list"
  exclude_types :: "string list"
  ignore_case :: bool
  smart_case :: bool
  invert_match :: bool
  whole_words :: bool
  literal_pattern :: bool
  max_match_count :: max_count

text \<open>The default values of the signature, for given roots and pattern.\<close>

definition default_args :: "string list \<Rightarrow> string option \<Rightarrow> args" where
  "default_args rs pat =
     \<lparr>roots = rs, pattern = pat, only_find_files = False, search_all_types = False,
      search_all_files_and_dirs = False, add_ignored_dirs = [], remove_ignored_dirs = [],
      recurse = True, type_pattern = None, include_types = [], exclude_types = [],
      ignore_case = False, smart_case = False, invert_match = False, whole_words = False,
      literal_pattern = False, max_match_count = Unbounded\<rparr>"

text \<open>The arguments of the constructor call of lines 106 to 113.\<close>

record finder_args =
  ff_roots :: "string list"
  ff_recurse :: bool
  ff_ignore_dirs :: "string set"
  ff_search_extensions :: "string set"
  ff_ignore_extensions :: "string set"
  ff_search_file_patterns :: "string set"
  ff_ignore_file_patterns :: "string set"

subsection \<open>Setting up the file finder (lines 77 to 113)\<close>

definition ignore_dirs :: "args \<Rightarrow> string set" where
  "ignore_dirs a =
     (if search_all_files_and_dirs a then {}
      else (IGNORED_DIRS \<union> set (add_ignored_dirs a)) - set (remove_ignored_dirs a))"

text \<open>
  \<^verbatim>\<open>for typ in types: extensions.update(TYPE_EXTENSION_MAP[typ])\<close>: the lookup
  of a name that is not a key raises \<^verbatim>\<open>KeyError\<close>.
\<close>

fun update_from_types :: "string list \<Rightarrow> string set \<Rightarrow> error + string set" where
  "update_from_types [] exts = Inr exts"
| "update_from_types (typ # typs) exts =
     (case TYPE_EXTENSION_MAP typ of
        None \<Rightarrow> Inl (KeyError typ)
      | Some es \<Rightarrow> update_from_types typs (exts \<union> set es))"

definition finder_setup :: "args \<Rightarrow> error + finder_args" where
  "finder_setup a =
     (case type_pattern a of
        Some tp \<Rightarrow>
          Inr \<lparr>ff_roots = roots a, ff_recurse = recurse a, ff_ignore_dirs = ignore_dirs a,
               ff_search_extensions = {}, ff_ignore_extensions = {},
               ff_search_file_patterns = {tp}, ff_ignore_file_patterns = {}\<rparr>
      | None \<Rightarrow>
          if \<not> search_all_files_and_dirs a \<and> \<not> search_all_types a then
            (case (if include_types a \<noteq> [] then update_from_types (include_types a) {}
                   else Inr (set (concat (map snd TYPE_EXTENSION_ITEMS)))) of
               Inl e \<Rightarrow> Inl e
             | Inr search_extensions \<Rightarrow>
                 (case update_from_types (exclude_types a) {} of
                    Inl e \<Rightarrow> Inl e
                  | Inr ignore_extensions \<Rightarrow>
                      Inr \<lparr>ff_roots = roots a, ff_recurse = recurse a,
                           ff_ignore_dirs = ignore_dirs a,
                           ff_search_extensions = search_extensions,
                           ff_ignore_extensions = ignore_extensions,
                           ff_search_file_patterns = {},
                           ff_ignore_file_patterns = IGNORED_FILE_PATTERNS\<rparr>))
          else
            Inr \<lparr>ff_roots = roots a, ff_recurse = recurse a, ff_ignore_dirs = ignore_dirs a,
                 ff_search_extensions = {}, ff_ignore_extensions = {},
                 ff_search_file_patterns = {}, ff_ignore_file_patterns = {}\<rparr>)"

subsection \<open>Events and the environment\<close>

text \<open>
  The calls of the driver on its collaborators: the two constructions, the
  calls of \<^verbatim>\<open>match_file\<close> (with the file object as it is handed over and the
  override of the cap, if any) and the five calls on the output formatter.
\<close>

datatype event =
    New_FileFinder finder_args
  | New_ContentMatcher matcher_args
  | Match_file fileobj "max_count option"
  | Found_filename string
  | Binary_file_matches string
  | Start_matches_in_file string
  | Matching_line match_result
  | End_matches_in_file string

fun is_output :: "event \<Rightarrow> bool" where
  "is_output (New_FileFinder _) = False"
| "is_output (New_ContentMatcher _) = False"
| "is_output (Match_file _ _) = False"
| "is_output _ = True"

text \<open>
  What the driver takes from outside: the paths \<^verbatim>\<open>filefinder.files()\<close>
  yields for a finder so constructed, the file system (\<^verbatim>\<open>open\<close> raises
  \<^verbatim>\<open>IOError\<close> on a path without content), \<^verbatim>\<open>istextfile\<close> (its verdict and
  the file object after its reads) and the compilation of a pattern under the
  flags ignore-case, whole-words and literal.
\<close>

record env =
  finder_files :: "finder_args \<Rightarrow> string list"
  file_content :: "string \<rightharpoonup> string"
  istextfile :: "fileobj \<Rightarrow> bool \<times> fileobj"
  re_compile :: "string option \<Rightarrow> bool \<Rightarrow> bool \<Rightarrow> bool \<Rightarrow> error + regex"

definition open_file :: "env \<Rightarrow> string \<Rightarrow> error + fileobj" where
  "open_file E filepath =
     (case file_content E filepath of
        None \<Rightarrow> Inl (IOError filepath)
      | Some bytes \<Rightarrow> Inr \<lparr>name = filepath, content = bytes, pos = 0\<rparr>)"

subsection \<open>The main loop (lines 132 to 160)\<close>

text \<open>\<^verbatim>\<open>'Binary file %s matches\n' % filepath\<close>.\<close>

definition binary_message :: "string \<Rightarrow> string" where
  "binary_message filepath = ''Binary file '' @ filepath @ '' matches'' @ [newline]"

text \<open>
  The body of the loop for one path: the events it adds and the exception, if
  one is raised. \<^verbatim>\<open>istextfile\<close> is called only for a file whose type is not
  known; the binary branch hands the file object over as \<^verbatim>\<open>istextfile\<close>
  left it, the other branch rewinds it first.
\<close>

definition process_file :: "env \<Rightarrow> matcher \<Rightarrow> bool \<Rightarrow> string \<Rightarrow> event list \<times> error option" where
  "process_file E m only_find filepath =
     (if only_find then ([Found_filename filepath], None)
      else
        (case open_file E filepath of
           Inl e \<Rightarrow> ([], Some e)
         | Inr fileobj \<Rightarrow>
             if \<not> known_file_type filepath \<and> \<not> fst (istextfile E fileobj) then
               (let fileobj' = snd (istextfile E fileobj);
                    matches = match_file m fileobj' (Some (At_most 1))
                in (Match_file fileobj' (Some (At_most 1))
                      # (if matches \<noteq> [] then [Binary_file_matches (binary_message filepath)]
                         else []),
                    None))
             else
               (let fileobj' = seek0 (if known_file_type filepath then fileobj
                                      else snd (istextfile E fileobj));
                    matches = match_file m fileobj' None
                in if matches = [] then ([Match_file fileobj' None], None)
                   else (Match_file fileobj' None
                           # Start_matches_in_file filepath
                           # map Matching_line matches
                           @ [End_matches_in_file filepath],
                         None))))"

text \<open>\<^verbatim>\<open>for filepath in filefinder.files()\<close>: an exception ends the loop.\<close>

fun run_files :: "env \<Rightarrow> matcher \<Rightarrow> bool \<Rightarrow> string list \<Rightarrow> event list \<times> error option" where
  "run_files E m only_find [] = ([], None)"
| "run_files E m only_find (filepath # rest) =
     (case process_file E m only_find filepath of
        (evs, Some e) \<Rightarrow> (evs, Some e)
      | (evs, None) \<Rightarrow>
          (case run_files E m only_find rest of
             (evs', r) \<Rightarrow> (evs @ evs', r)))"

subsection \<open>\<^verbatim>\<open>pss_run\<close>\<close>

definition matcher_setup :: "args \<Rightarrow> error + matcher_args" where
  "matcher_setup a =
     (case effective_ignore_case (ignore_case a) (smart_case a) (pattern a) of
        Inl e \<Rightarrow> Inl e
      | Inr ic \<Rightarrow>
          Inr \<lparr>cm_pattern = pattern a, cm_ignore_case = ic, cm_invert_match = invert_match a,
               cm_whole_words = whole_words a, cm_literal_pattern = literal_pattern a,
               cm_max_match_count = max_match_count a\<rparr>)"

text \<open>
  The whole run: the events in order, and the exception that ended the run,
  if any.
\<close>

definition pss_run :: "env \<Rightarrow> args \<Rightarrow> event list \<times> error option" where
  "pss_run E a =
     (case finder_setup a of
        Inl e \<Rightarrow> ([], Some e)
      | Inr fa \<Rightarrow>
          (case matcher_setup a of
             Inl e \<Rightarrow> ([New_FileFinder fa], Some e)
           | Inr ma \<Rightarrow>
               (case ContentMatcher (re_compile E) ma of
                  Inl e \<Rightarrow> ([New_FileFinder fa, New_ContentMatcher ma], Some e)
                | Inr m \<Rightarrow>
                    (case run_files E m (only_find_files a) (finder_files E fa) of
                       (evs, r) \<Rightarrow> (New_FileFinder fa # New_ContentMatcher ma # evs, r)))))"

subsection \<open>An instance of the environment, for examples\<close>

text \<open>
  A small regular-expression engine, exact for patterns made of letters and
  digits only (no metacharacter, so the literal flag changes nothing) with the
  whole-words flag off: the spans of the successive non-overlapping occurrences
  of the pattern in the line, letters compared in lower case when the
  ignore-case flag is set. Compiling the pattern \<^verbatim>\<open>None\<close> raises
  \<^verbatim>\<open>TypeError\<close>, as \<^verbatim>\<open>re.compile\<close> does.
\<close>

definition lower :: "char \<Rightarrow> char" where
  "lower c = (if is_upper c then char_of (of_char c + (32::nat)) else c)"

fun plain_scan :: "string \<Rightarrow> nat \<Rightarrow> nat \<Rightarrow> string \<Rightarrow> (nat \<times> nat) list" where
  "plain_scan pat skip i [] = (if pat = [] then [(i, i)] else [])"
| "plain_scan pat skip i (c # cs) =
     (if 0 < skip then plain_scan pat (skip - 1) (Suc i) cs
      else if take (length pat) (c # cs) = pat
      then (i, i + length pat) # plain_scan pat (length pat - 1) (Suc i) cs
      else plain_scan pat 0 (Suc i) cs)"

definition plain_compile :: "string option \<Rightarrow> bool \<Rightarrow> bool \<Rightarrow> bool \<Rightarrow> error + regex" where
  "plain_compile pat ic ww lit =
     (case pat of
        None \<Rightarrow> Inl TypeError
      | Some p \<Rightarrow>
          Inr (\<lambda>l. if ic then plain_scan (map lower p) 0 0 (map lower l)
                    else plain_scan p 0 0 l))"

text \<open>
  An instance of the binary heuristic: a file is binary when its first
  \<open>blocksize\<close> bytes hold a NUL byte; the sample is read from the file object,
  which is left behind it.
\<close>

definition sample_istextfile :: "nat \<Rightarrow> fileobj \<Rightarrow> bool \<times> fileobj" where
  "sample_istextfile blocksize f =
     (CHR 0x00 \<notin> set (take blocksize (drop (pos f) (content f))),
      f\<lparr>pos := min (pos f + blocksize) (length (content f))\<rparr>)"

text \<open>
  The environment in which the finder yields the paths \<open>paths\<close>, in this
  order, the files \<open>files\<close> (path and content) can be opened, and the
  heuristic samples eight bytes.
\<close>

definition example_env :: "string list \<Rightarrow> (string \<times> string) list \<Rightarrow> env" where
  "example_env paths files =
     \<lparr>finder_files = (\<lambda>_. paths), file_content = map_of files,
      istextfile = sample_istextfile 8, re_compile = plain_compile\<rparr>"

subsection \<open>Vocabulary of the properties\<close>

text \<open>
  The character at index \<open>i\<close> of a pattern is escaped when the run of
  backslashes that ends just before it has odd length: every second backslash
  of a run starts an escape.
\<close>

definition escaped_at :: "string \<Rightarrow> nat \<Rightarrow> bool" where
  "escaped_at p i \<longleftrightarrow> odd (length (takeWhile (\<lambda>c. c = backslash) (rev (take i p))))"

definition has_unescaped_upper :: "string \<Rightarrow> bool" where
  "has_unescaped_upper p \<longleftrightarrow>
     list_ex (\<lambda>i. is_upper (p ! i) \<and> \<not> escaped_at p i) [0..<length p]"

text \<open>The pattern contains an uppercase letter, anywhere.\<close>

definition contains_uppercase :: "string \<Rightarrow> bool" where
  "contains_uppercase p \<longleftrightarrow> list_ex is_upper p"

text \<open>Every uppercase letter of the pattern has a backslash just before it.\<close>

definition upper_after_backslash :: "string \<Rightarrow> bool" where
  "upper_after_backslash p \<longleftrightarrow>
     list_all (\<lambda>i. is_upper (p ! i) \<longrightarrow> 0 < i \<and> p ! (i - 1) = backslash) [0..<length p]"

text \<open>
  The lines a file object still has to give, their numbering from one, the
  test that a pattern matches somewhere in a line, and the records of all the
  qualifying lines of a file, in file order.
\<close>

definition file_lines :: "fileobj \<Rightarrow> string list" where
  "file_lines f = readlines (drop (pos f) (content f))"

definition numbered :: "string list \<Rightarrow> (nat \<times> string) list" where
  "numbered ls = zip [1..<Suc (length ls)] ls"

definition has_match :: "regex \<Rightarrow> string \<Rightarrow> bool" where
  "has_match re l \<longleftrightarrow> re (strip_eol l) \<noteq> []"

definition qualifying :: "regex \<Rightarrow> bool \<Rightarrow> string list \<Rightarrow> match_result list" where
  "qualifying re invert ls =
     map (\<lambda>(i, l). \<lparr>lineno = i, line = l, spans = (if invert then [] else re (strip_eol l))\<rparr>)
       (filter (\<lambda>(i, l). has_match re l \<noteq> invert) (numbered ls))"

subsection \<open>Example runs\<close>

text \<open>Two names added to the ignored directories, two removed, one of them both.\<close>

definition ignore_example :: args where
  "ignore_example =
     (default_args [''.''] (Some ''x''))
       \<lparr>add_ignored_dirs := [''build'', ''tmp''], remove_ignored_dirs := [''build'', ''.git'']\<rparr>"

definition ignore_example_finder :: finder_args where
  "ignore_example_finder =
     \<lparr>ff_roots = [''.''], ff_recurse = True,
      ff_ignore_dirs = (IGNORED_DIRS \<union> {''build'', ''tmp''}) - {''build'', ''.git''},
      ff_search_extensions = ALL_KNOWN_EXTENSIONS, ff_ignore_extensions = {},
      ff_search_file_patterns = {}, ff_ignore_file_patterns = IGNORED_FILE_PATTERNS\<rparr>"

text \<open>A file of three lines, the last without terminator, and matchers for the pattern \<^verbatim>\<open>import\<close>.\<close>

definition two_line_file :: fileobj where
  "two_line_file =
     \<lparr>name = ''root/a.py'',
      content = ''import os'' @ [newline] @ ''def f(): pass'' @ [newline] @ ''import re'',
      pos = 0\<rparr>"

definition import_matcher :: "bool \<Rightarrow> max_count \<Rightarrow> matcher" where
  "import_matcher invert cap =
     \<lparr>m_regex = plain_scan ''import'' 0 0, m_invert_match = invert, m_max_match_count = cap\<rparr>"

text \<open>
  A run with smart-case over one file \<^verbatim>\<open>a.py\<close>, the constructor arguments it
  gives the content matcher, and the finder arguments of a run with the
  default options.
\<close>

definition smart_args :: "string \<Rightarrow> args" where
  "smart_args pat = (default_args [''.''] (Some pat))\<lparr>smart_case := True\<rparr>"

definition one_file_env :: "string \<Rightarrow> env" where
  "one_file_env text = example_env [''a.py''] [(''a.py'', text)]"

definition smart_matcher_args :: "string \<Rightarrow> bool \<Rightarrow> matcher_args" where
  "smart_matcher_args pat ic =
     \<lparr>cm_pattern = Some pat, cm_ignore_case = ic, cm_invert_match = False,
      cm_whole_words = False, cm_literal_pattern = False, cm_max_match_count = Unbounded\<rparr>"

definition default_finder :: finder_args where
  "default_finder =
     \<lparr>ff_roots = [''.''], ff_recurse = True, ff_ignore_dirs = IGNORED_DIRS,
      ff_search_extensions = ALL_KNOWN_EXTENSIONS, ff_ignore_extensions = {},
      ff_search_file_patterns = {}, ff_ignore_file_patterns = IGNORED_FILE_PATTERNS\<rparr>"

text \<open>
  A run over all file types with the pattern \<^verbatim>\<open>import\<close>, and a tree of three
  files: a Python source, a binary file (a NUL byte in its first eight bytes,
  the text \<^verbatim>\<open>import\<close> after them) and a text file of unknown type.
\<close>

definition all_types_args :: "string \<Rightarrow> args" where
  "all_types_args pat = (default_args [''.''] (Some pat))\<lparr>search_all_types := True\<rparr>"

definition all_types_finder :: finder_args where
  "all_types_finder =
     \<lparr>ff_roots = [''.''], ff_recurse = True, ff_ignore_dirs = IGNORED_DIRS,
      ff_search_extensions = {}, ff_ignore_extensions = {},
      ff_search_file_patterns = {}, ff_ignore_file_patterns = {}\<rparr>"

definition import_args :: matcher_args where
  "import_args =
     \<lparr>cm_pattern = Some ''import'', cm_ignore_case = False, cm_invert_match = False,
      cm_whole_words = False, cm_literal_pattern = False, cm_max_match_count = Unbounded\<rparr>"

definition a_py :: string where
  "a_py = ''import os'' @ [newline] @ ''def f(): pass'' @ [newline]"

definition b_bin :: string where
  "b_bin = [CHR 0x00] @ ''1234567import os''"

definition tree_env :: env where
  "tree_env =
     example_env [''root/a.py'', ''root/b.bin'', ''root/c.txt'']
       [(''root/a.py'', a_py), (''root/b.bin'', b_bin), (''root/c.txt'', ''pass'' @ [newline])]"

definition opened :: "string \<Rightarrow> string \<Rightarrow> fileobj" where
  "opened path bytes = \<lparr>name = path, content = bytes, pos = 0\<rparr>"

text \<open>
  A run with the default options over three candidates, the second of which
  cannot be opened.
\<close>

definition gone_env :: env where
  "gone_env =
     example_env [''root/a.py'', ''root/gone.py'', ''root/b.py'']
       [(''root/a.py'', a_py), (''root/b.py'', a_py)]"

definition import_default_args :: args where
  "import_default_args = default_args [''.''] (Some ''import'')"

text \<open>
  Two runs that only find files, without a pattern as the script starts them
  (with smart-case and without), the constructor arguments of the second, and
  two runs that name a type absent from \<^verbatim>\<open>TYPE_EXTENSION_MAP\<close>: one
  together with a file-name pattern, one among the included types.
\<close>

definition find_smart_args :: args where
  "find_smart_args =
     (default_args [''.''] None)\<lparr>only_find_files := True, smart_case := True\<rparr>"

definition find_plain_args :: args where
  "find_plain_args = (default_args [''.''] None)\<lparr>only_find_files := True\<rparr>"

definition absent_pattern_args :: matcher_args where
  "absent_pattern_args =
     \<lparr>cm_pattern = None, cm_ignore_case = False, cm_invert_match = False,
      cm_whole_words = False, cm_literal_pattern = False, cm_max_match_count = Unbounded\<rparr>"

definition pattern_type_args :: args where
  "pattern_type_args =
     (default_args [''.''] (Some ''import''))
       \<lparr>type_pattern := Some ''py$'', include_types := [''nosuch'']\<rparr>"

definition nosuch_args :: args where
  "nosuch_args = (default_args [''.''] (Some ''import''))\<lparr>include_types := [''python'', ''nosuch'']\<rparr>"

section \<open>Properties\<close>

subsection \<open>The scan for uppercase letters\<close>

lemma not_upper_backslash: "\<not> is_upper backslash"
  by (simp add: is_upper_def backslash_def)

lemma has_uppercase_loop_char:
  "has_uppercase_loop (odd (length (takeWhile (\<lambda>c. c = backslash) (rev q)))) p \<longleftrightarrow>
   (\<exists>i<length p. is_upper (p ! i) \<and> \<not> escaped_at (q @ p) (length q + i))"
proof (induction p arbitrary: q)
  case Nil
  then show ?case by simp
next
  case (Cons c cs)
  let ?k = "length (takeWhile (\<lambda>c. c = backslash) (rev q))"
  have run: "length (takeWhile (\<lambda>c. c = backslash) (rev (q @ [c]))) = (if c = backslash then Suc ?k else 0)"
    by simp
  have IH: "has_uppercase_loop (odd (if c = backslash then Suc ?k else 0)) cs \<longleftrightarrow>
     (\<exists>i<length cs. is_upper (cs ! i) \<and> \<not> escaped_at (q @ c # cs) (Suc (length q + i)))"
    using Cons.IH [of "q @ [c]"] by (simp only: run) simp
  have zero: "escaped_at (q @ c # cs) (length q) \<longleftrightarrow> odd ?k"
    by (simp add: escaped_at_def)
  have split: "(\<exists>i<length (c # cs). is_upper ((c # cs) ! i) \<and> \<not> escaped_at (q @ c # cs) (length q + i)) \<longleftrightarrow>
     (is_upper c \<and> even ?k) \<or> (\<exists>i<length cs. is_upper (cs ! i) \<and> \<not> escaped_at (q @ c # cs) (Suc (length q + i)))"
    (is "?L \<longleftrightarrow> ?A \<or> ?B")
  proof
    assume ?L
    then obtain i where i: "i < length (c # cs)" "is_upper ((c # cs) ! i)" "\<not> escaped_at (q @ c # cs) (length q + i)"
      by blast
    show "?A \<or> ?B"
    proof (cases i)
      case 0
      with i zero show ?thesis by simp
    next
      case (Suc j)
      with i show ?thesis by auto
    qed
  next
    assume "?A \<or> ?B"
    then show ?L
    proof
      assume ?A
      with zero have "0 < length (c # cs) \<and> is_upper ((c # cs) ! 0) \<and> \<not> escaped_at (q @ c # cs) (length q + 0)"
        by simp
      then show ?L by blast
    next
      assume ?B
      then obtain j where "j < length cs" "is_upper (cs ! j)" "\<not> escaped_at (q @ c # cs) (Suc (length q + j))"
        by blast
      then have "Suc j < length (c # cs) \<and> is_upper ((c # cs) ! Suc j) \<and> \<not> escaped_at (q @ c # cs) (length q + Suc j)"
        by simp
      then show ?L by blast
    qed
  qed
  show ?case
    unfolding split using IH not_upper_backslash
    by (cases "odd ?k"; cases "c = backslash"; simp)
qed

lemma pattern_has_uppercase_iff:
  "pattern_has_uppercase p \<longleftrightarrow> (\<exists>i<length p. is_upper (p ! i) \<and> \<not> escaped_at p i)"
  using has_uppercase_loop_char [of "[]" p] by (simp add: pattern_has_uppercase_def)

lemma has_unescaped_upper_iff:
  "has_unescaped_upper p \<longleftrightarrow> (\<exists>i<length p. is_upper (p ! i) \<and> \<not> escaped_at p i)"
  by (auto simp: has_unescaped_upper_def list_ex_iff)

subsection \<open>The match sequence of a file\<close>

lemma match_lines_unbounded:
  "match_lines re invert Unbounded n no ls =
     map (\<lambda>(i, l). \<lparr>lineno = i, line = l, spans = (if invert then [] else re (strip_eol l))\<rparr>)
       (filter (\<lambda>(i, l). has_match re l \<noteq> invert) (zip [no..<no + length ls] ls))"
proof (induction ls arbitrary: n no invert)
  case Nil
  then show ?case by simp
next
  case (Cons l ls)
  have z: "zip [no..<no + length (l # ls)] (l # ls) = (no, l) # zip [Suc no..<Suc no + length ls] ls"
    using upt_conv_Cons [of no "no + length (l # ls)"] by (simp del: upt_Suc)
  show ?case
    by (simp only: z) (simp add: Cons.IH has_match_def del: upt_Suc)
qed

lemma match_lines_unbounded_count:
  "match_lines re invert Unbounded n no ls = match_lines re invert Unbounded 0 no ls"
  by (simp only: match_lines_unbounded)

lemma match_lines_cap:
  "match_lines re invert (At_most N) n no ls =
     take (N - n) (match_lines re invert Unbounded 0 no ls)"
proof (induction ls arbitrary: n no invert)
  case Nil
  then show ?case by simp
next
  case (Cons l ls)
  show ?case
  proof (cases "N \<le> n")
    case True
    then show ?thesis by simp
  next
    case False
    then have "N - n = Suc (N - Suc n)" by simp
    then have s: "take (N - n) (x # xs) = x # take (N - Suc n) xs" for x :: match_result and xs
      by simp
    have u: "match_lines re b Unbounded (Suc 0) k ls = match_lines re b Unbounded 0 k ls" for b k
      by (rule match_lines_unbounded_count)
    show ?thesis
      using False by (simp add: s Cons.IH u)
  qed
qed

lemma match_file_qualifying:
  "m_max_match_count m = Unbounded \<Longrightarrow>
   match_file m f None = qualifying (m_regex m) (m_invert_match m) (file_lines f)"
  by (simp add: match_file_def match_lines_unbounded qualifying_def numbered_def file_lines_def)

lemma lineno_qualifying:
  "map lineno (qualifying re invert ls) =
   map fst (filter (\<lambda>(i, l). has_match re l \<noteq> invert) (numbered ls))"
  by (simp add: qualifying_def case_prod_unfold comp_def)

lemma fst_numbered: "map fst (numbered ls) = [1..<Suc (length ls)]"
  by (simp add: numbered_def)

lemma distinct_numbered: "distinct (map fst (numbered ls))"
  by (simp add: fst_numbered)

lemma numbered_key: "(i, l) \<in> set (numbered ls) \<Longrightarrow> (i, l') \<in> set (numbered ls) \<Longrightarrow> l = l'"
  using distinct_numbered [of ls] by (rule eq_key_imp_eq_value)

lemma qualifying_complement:
  "set (map lineno (qualifying re False ls)) \<union> set (map lineno (qualifying re True ls)) = {1..length ls}"
  "set (map lineno (qualifying re False ls)) \<inter> set (map lineno (qualifying re True ls)) = {}"
proof -
  have "set (map lineno (qualifying re False ls)) \<union> set (map lineno (qualifying re True ls))
      = fst ` set (numbered ls)"
    unfolding lineno_qualifying by (auto simp: image_iff)
  also have "\<dots> = set (map fst (numbered ls))" by simp
  also have "\<dots> = {1..length ls}" unfolding fst_numbered by auto
  finally show "set (map lineno (qualifying re False ls)) \<union> set (map lineno (qualifying re True ls)) = {1..length ls}" .
  show "set (map lineno (qualifying re False ls)) \<inter> set (map lineno (qualifying re True ls)) = {}"
    unfolding lineno_qualifying by (auto dest: numbered_key)
qed

lemma reported_iff:
  assumes "(i, l) \<in> set (numbered ls)"
  shows "i \<in> set (map lineno (qualifying re invert ls)) \<longleftrightarrow> (has_match re l \<noteq> invert)"
  unfolding lineno_qualifying using assms by (auto dest: numbered_key simp: image_iff)

lemma spans_inverted: "r \<in> set (qualifying re True ls) \<Longrightarrow> spans r = []"
  by (auto simp: qualifying_def)

subsection \<open>Setting up the finder\<close>

lemma finder_setup_ignore_dirs: "finder_setup a = Inr fa \<Longrightarrow> ff_ignore_dirs fa = ignore_dirs a"
  by (auto simp: finder_setup_def split: option.splits if_splits sum.splits)

lemma pss_run_first_event:
  "finder_setup a = Inr fa \<Longrightarrow> \<exists>evs. fst (pss_run E a) = New_FileFinder fa # evs"
  by (simp add: pss_run_def split: sum.splits prod.splits)

text \<open>
  C10. When the set-up of the finder succeeds, the finder is the first thing
  the run constructs, and the ignore-directory set it is given is the default
  ignored directories with \<^verbatim>\<open>add_ignored_dirs\<close> added and then
  \<^verbatim>\<open>remove_ignored_dirs\<close> taken away, so a name in both lists is not
  ignored; with \<^verbatim>\<open>search_all_files_and_dirs\<close> the set is empty, whatever
  \<^verbatim>\<open>add_ignored_dirs\<close> holds.
\<close>

theorem ignore_dirs_of_finder:
  assumes "finder_setup a = Inr fa"
  shows "(\<exists>evs. fst (pss_run E a) = New_FileFinder fa # evs) \<and>
         ff_ignore_dirs fa =
           (if search_all_files_and_dirs a then {}
            else (IGNORED_DIRS \<union> set (add_ignored_dirs a)) - set (remove_ignored_dirs a)) \<and>
         (n \<in> set (add_ignored_dirs a) \<and> n \<in> set (remove_ignored_dirs a) \<longrightarrow> n \<notin> ff_ignore_dirs fa) \<and>
         (search_all_files_and_dirs a \<longrightarrow> ff_ignore_dirs fa = {})"
  using assms pss_run_first_event [OF assms, of E] finder_setup_ignore_dirs [OF assms]
  by (auto simp: ignore_dirs_def)

theorem ignore_dirs_of_finder_witness:
  "finder_setup ignore_example = Inr ignore_example_finder \<and>
   ''build'' \<in> set (add_ignored_dirs ignore_example) \<and>
   ''build'' \<in> set (remove_ignored_dirs ignore_example) \<and>
   ''build'' \<notin> ff_ignore_dirs ignore_example_finder \<and>
   ''tmp'' \<in> ff_ignore_dirs ignore_example_finder \<and>
   ''.git'' \<notin> ff_ignore_dirs ignore_example_finder \<and>
   ''.svn'' \<in> ff_ignore_dirs ignore_example_finder \<and>
   ff_ignore_dirs ignore_example_finder =
     (IGNORED_DIRS \<union> set (add_ignored_dirs ignore_example)) - set (remove_ignored_dirs ignore_example)"
proof -
  have h: "finder_setup ignore_example = Inr ignore_example_finder"
    by (simp add: finder_setup_def ignore_example_def ignore_example_finder_def default_args_def
      ignore_dirs_def ALL_KNOWN_EXTENSIONS_def)
  have m: "''build'' \<in> set (add_ignored_dirs ignore_example) \<and>
     ''build'' \<in> set (remove_ignored_dirs ignore_example) \<and> \<not> search_all_files_and_dirs ignore_example"
    by (simp add: ignore_example_def default_args_def)
  have c: "''tmp'' \<in> ff_ignore_dirs ignore_example_finder \<and>
   ''.git'' \<notin> ff_ignore_dirs ignore_example_finder \<and>
   ''.svn'' \<in> ff_ignore_dirs ignore_example_finder"
    by (simp add: ignore_example_finder_def IGNORED_DIRS_def)
  show ?thesis
    using ignore_dirs_of_finder [OF h, of "example_env [] []" "''build''"] h m c by simp
qed

subsection \<open>Invert-match and the cap\<close>

text \<open>
  C5. With an unbounded cap, the match sequence of a file without
  invert-match holds exactly the lines in which the pattern matches
  somewhere, each with its spans, and with invert-match exactly the lines in
  which it matches nowhere, each with an empty span list; the line numbers
  reported by the two modes are disjoint and together all the lines of the
  file.
\<close>

theorem invert_match_complement:
  assumes "m_max_match_count m = Unbounded"
  shows "match_file (m\<lparr>m_invert_match := False\<rparr>) f None =
           map (\<lambda>(i, l). \<lparr>lineno = i, line = l, spans = m_regex m (strip_eol l)\<rparr>)
             (filter (\<lambda>(i, l). has_match (m_regex m) l) (numbered (file_lines f))) \<and>
         match_file (m\<lparr>m_invert_match := True\<rparr>) f None =
           map (\<lambda>(i, l). \<lparr>lineno = i, line = l, spans = []\<rparr>)
             (filter (\<lambda>(i, l). \<not> has_match (m_regex m) l) (numbered (file_lines f))) \<and>
         (\<forall>(i, l) \<in> set (numbered (file_lines f)).
            (i \<in> lineno ` set (match_file (m\<lparr>m_invert_match := False\<rparr>) f None)
               \<longleftrightarrow> has_match (m_regex m) l) \<and>
            (i \<in> lineno ` set (match_file (m\<lparr>m_invert_match := True\<rparr>) f None)
               \<longleftrightarrow> \<not> has_match (m_regex m) l)) \<and>
         lineno ` set (match_file (m\<lparr>m_invert_match := False\<rparr>) f None) \<union>
           lineno ` set (match_file (m\<lparr>m_invert_match := True\<rparr>) f None) = {1..length (file_lines f)} \<and>
         lineno ` set (match_file (m\<lparr>m_invert_match := False\<rparr>) f None) \<inter>
           lineno ` set (match_file (m\<lparr>m_invert_match := True\<rparr>) f None) = {} \<and>
         (\<forall>r \<in> set (match_file (m\<lparr>m_invert_match := True\<rparr>) f None). spans r = [])"
proof -
  let ?ls = "file_lines f"
  have n: "match_file (m\<lparr>m_invert_match := False\<rparr>) f None = qualifying (m_regex m) False ?ls"
    using assms match_file_qualifying [of "m\<lparr>m_invert_match := False\<rparr>" f] by simp
  have i: "match_file (m\<lparr>m_invert_match := True\<rparr>) f None = qualifying (m_regex m) True ?ls"
    using assms match_file_qualifying [of "m\<lparr>m_invert_match := True\<rparr>" f] by simp
  have 1: "qualifying (m_regex m) False ?ls =
           map (\<lambda>(i, l). \<lparr>lineno = i, line = l, spans = m_regex m (strip_eol l)\<rparr>)
             (filter (\<lambda>(i, l). has_match (m_regex m) l) (numbered ?ls))"
    by (simp add: qualifying_def)
  have 2: "qualifying (m_regex m) True ?ls =
           map (\<lambda>(i, l). \<lparr>lineno = i, line = l, spans = []\<rparr>)
             (filter (\<lambda>(i, l). \<not> has_match (m_regex m) l) (numbered ?ls))"
    by (simp add: qualifying_def)
  have 3: "\<forall>(i, l) \<in> set (numbered ?ls).
            (i \<in> lineno ` set (qualifying (m_regex m) False ?ls) \<longleftrightarrow> has_match (m_regex m) l) \<and>
            (i \<in> lineno ` set (qualifying (m_regex m) True ?ls) \<longleftrightarrow> \<not> has_match (m_regex m) l)"
  proof (clarify, intro conjI)
    fix i l
    assume m: "(i, l) \<in> set (numbered ?ls)"
    show "i \<in> lineno ` set (qualifying (m_regex m) False ?ls) \<longleftrightarrow> has_match (m_regex m) l"
      using reported_iff [OF m, of "m_regex m" False] by simp
    show "i \<in> lineno ` set (qualifying (m_regex m) True ?ls) \<longleftrightarrow> \<not> has_match (m_regex m) l"
      using reported_iff [OF m, of "m_regex m" True] by simp
  qed
  have 4: "lineno ` set (qualifying (m_regex m) False ?ls) \<union>
           lineno ` set (qualifying (m_regex m) True ?ls) = {1..length ?ls}"
    using qualifying_complement(1) [of "m_regex m" ?ls] by simp
  have 5: "lineno ` set (qualifying (m_regex m) False ?ls) \<inter>
           lineno ` set (qualifying (m_regex m) True ?ls) = {}"
    using qualifying_complement(2) [of "m_regex m" ?ls] by simp
  have 6: "\<forall>r \<in> set (qualifying (m_regex m) True ?ls). spans r = []"
    by (simp add: spans_inverted)
  show ?thesis
    unfolding n i using 1 2 3 4 5 6 by (intro conjI)
qed

theorem invert_match_complement_witness:
  "m_max_match_count (import_matcher False Unbounded) = Unbounded \<and>
   match_file (import_matcher False Unbounded) two_line_file None =
     [\<lparr>lineno = 1, line = ''import os'' @ [newline], spans = [(0, 6)]\<rparr>,
      \<lparr>lineno = 3, line = ''import re'', spans = [(0, 6)]\<rparr>] \<and>
   match_file (import_matcher True Unbounded) two_line_file None =
     [\<lparr>lineno = 2, line = ''def f(): pass'' @ [newline], spans = []\<rparr>]"
proof -
  have h: "m_max_match_count (import_matcher False Unbounded) = Unbounded"
    by (simp add: import_matcher_def)
  have a: "(import_matcher False Unbounded)\<lparr>m_invert_match := False\<rparr> = import_matcher False Unbounded"
    "(import_matcher False Unbounded)\<lparr>m_invert_match := True\<rparr> = import_matcher True Unbounded"
    by (simp_all add: import_matcher_def)
  have r: "m_regex (import_matcher False Unbounded) = plain_scan ''import'' 0 0"
    by (simp add: import_matcher_def)
  have n: "numbered (file_lines two_line_file) =
    [(1, ''import os'' @ [newline]), (2, ''def f(): pass'' @ [newline]), (3, ''import re'')]"
    by (simp add: file_lines_def two_line_file_def newline_def numbered_def upt_conv_Cons)
  show ?thesis
    using invert_match_complement [OF h, of two_line_file] h
    by (simp add: a r n has_match_def strip_eol_def newline_def)
qed

lemma match_file_override_unbounded:
  "match_file m f (Some Unbounded) = qualifying (m_regex m) (m_invert_match m) (file_lines f)"
  by (simp add: match_file_def match_lines_unbounded qualifying_def numbered_def file_lines_def)

lemma match_file_override_cap:
  "match_file m f (Some (At_most N)) = take N (qualifying (m_regex m) (m_invert_match m) (file_lines f))"
  by (simp add: match_file_def match_lines_cap match_lines_unbounded qualifying_def numbered_def
      file_lines_def)

lemma match_file_configured_cap:
  "m_max_match_count m = At_most N \<Longrightarrow>
   match_file m f None = take N (qualifying (m_regex m) (m_invert_match m) (file_lines f))"
  by (simp add: match_file_def match_lines_cap match_lines_unbounded qualifying_def numbered_def
      file_lines_def)

text \<open>
  C6. For a positive cap \<open>N\<close>, given as the override or as the configured
  maximum, the match sequence of a file, inverted or not, is the first \<open>N\<close>
  records of the qualifying lines of that file in file order, so it never
  has more than \<open>N\<close> records; the count starts anew with each file, so every
  file of a list gets its own first \<open>N\<close>.
\<close>

theorem match_cap_per_file:
  assumes "0 < N"
  shows "match_file m f (Some (At_most N)) =
           take N (qualifying (m_regex m) (m_invert_match m) (file_lines f)) \<and>
         (m_max_match_count m = At_most N \<longrightarrow>
            match_file m f None =
              take N (qualifying (m_regex m) (m_invert_match m) (file_lines f))) \<and>
         match_file m f (Some Unbounded) =
           qualifying (m_regex m) (m_invert_match m) (file_lines f) \<and>
         length (match_file m f (Some (At_most N))) \<le> N \<and>
         map (\<lambda>g. match_file m g (Some (At_most N))) fs =
           map (\<lambda>g. take N (qualifying (m_regex m) (m_invert_match m) (file_lines g))) fs"
  by (simp add: match_file_override_cap match_file_override_unbounded match_file_configured_cap)

theorem match_cap_per_file_witness:
  "(0::nat) < 1 \<and>
   match_file (import_matcher False (At_most 1)) two_line_file None =
     [\<lparr>lineno = 1, line = ''import os'' @ [newline], spans = [(0, 6)]\<rparr>] \<and>
   match_file (import_matcher True Unbounded) two_line_file (Some (At_most 1)) =
     [\<lparr>lineno = 2, line = ''def f(): pass'' @ [newline], spans = []\<rparr>] \<and>
   map (\<lambda>g. match_file (import_matcher False Unbounded) g (Some (At_most 1)))
     [two_line_file, two_line_file] =
     [[\<lparr>lineno = 1, line = ''import os'' @ [newline], spans = [(0, 6)]\<rparr>],
      [\<lparr>lineno = 1, line = ''import os'' @ [newline], spans = [(0, 6)]\<rparr>]]"
proof -
  have h: "(0::nat) < 1" by simp
  have n: "numbered (file_lines two_line_file) =
    [(1, ''import os'' @ [newline]), (2, ''def f(): pass'' @ [newline]), (3, ''import re'')]"
    by (simp add: file_lines_def two_line_file_def newline_def numbered_def upt_conv_Cons)
  have q: "qualifying (plain_scan ''import'' 0 0) False (file_lines two_line_file) =
     [\<lparr>lineno = 1, line = ''import os'' @ [newline], spans = [(0, 6)]\<rparr>,
      \<lparr>lineno = 3, line = ''import re'', spans = [(0, 6)]\<rparr>]"
    "qualifying (plain_scan ''import'' 0 0) True (file_lines two_line_file) =
     [\<lparr>lineno = 2, line = ''def f(): pass'' @ [newline], spans = []\<rparr>]"
    by (simp_all add: qualifying_def n has_match_def strip_eol_def newline_def)
  show ?thesis
    using match_cap_per_file [OF h, of "import_matcher False (At_most 1)" two_line_file "[]"]
      match_cap_per_file [OF h, of "import_matcher True Unbounded" two_line_file "[]"]
      match_cap_per_file [OF h, of "import_matcher False Unbounded" two_line_file
        "[two_line_file, two_line_file]"]
    by (simp add: import_matcher_def q)
qed

subsection \<open>Smart-case\<close>

text \<open>
  The claim C9 as it is worded fails when the backslash before the uppercase
  letter is itself escaped: in the pattern of a backslash, a backslash and
  \<^verbatim>\<open>A\<close> the letter has a backslash just before it, yet the scan skips the
  second backslash, sees the letter, and smart-case leaves the search
  case-sensitive.
\<close>

theorem escaped_backslash_counterexample:
  "upper_after_backslash [backslash, backslash, CHR ''A''] \<and>
   pattern_has_uppercase [backslash, backslash, CHR ''A''] \<and>
   effective_ignore_case False True (Some [backslash, backslash, CHR ''A'']) = Inr False"
  by code_simp

text \<open>
  C9, amended. For every pattern string in which every uppercase ASCII letter
  is escaped, that is, comes right after a run of backslashes of odd length
  (as in a backslash and \<^verbatim>\<open>A\<close>), \<^verbatim>\<open>_pattern_has_uppercase\<close> returns
  \<^verbatim>\<open>False\<close>, so under smart-case with no explicit ignore-case the content
  matcher is given \<^verbatim>\<open>ignore_case=True\<close>.
\<close>

theorem escaped_uppercase_not_seen:
  assumes "\<not> has_unescaped_upper p"
  shows "\<not> pattern_has_uppercase p \<and>
         effective_ignore_case False True (Some p) = Inr True"
  using assms
  by (simp add: pattern_has_uppercase_iff has_unescaped_upper_iff effective_ignore_case_def)

theorem escaped_uppercase_not_seen_witness:
  "\<not> has_unescaped_upper (''foo'' @ [backslash] @ ''Bbar'') \<and>
   \<not> pattern_has_uppercase (''foo'' @ [backslash] @ ''Bbar'') \<and>
   effective_ignore_case False True (Some (''foo'' @ [backslash] @ ''Bbar'')) = Inr True \<and>
   \<not> has_unescaped_upper [backslash, CHR ''A''] \<and>
   \<not> pattern_has_uppercase [backslash, CHR ''A'']"
proof -
  have h1: "\<not> has_unescaped_upper (''foo'' @ [backslash] @ ''Bbar'')" by code_simp
  have h2: "\<not> has_unescaped_upper [backslash, CHR ''A'']" by code_simp
  show ?thesis
    using escaped_uppercase_not_seen [OF h1] escaped_uppercase_not_seen [OF h2] h1 h2 by simp
qed

text \<open>
  The claim C3 as it is worded fails on the pattern of a backslash and
  \<^verbatim>\<open>A\<close>: it contains an
  uppercase letter, and with smart-case on and ignore-case off the flag handed
  to the content matcher is nevertheless \<^verbatim>\<open>True\<close>.
\<close>

theorem smart_case_counterexample:
  "effective_ignore_case False True (Some [backslash, CHR ''A'']) = Inr True \<and>
   (False \<or> (True \<and> \<not> contains_uppercase [backslash, CHR ''A''])) = False"
  by code_simp

lemma matcher_setup_ignore_case:
  assumes "matcher_setup a = Inr ma"
  shows "effective_ignore_case (ignore_case a) (smart_case a) (pattern a) = Inr (cm_ignore_case ma)"
  using assms by (auto simp: matcher_setup_def split: sum.splits)

lemma pss_run_second_event:
  "finder_setup a = Inr fa \<Longrightarrow> matcher_setup a = Inr ma \<Longrightarrow>
   \<exists>evs. fst (pss_run E a) = New_FileFinder fa # New_ContentMatcher ma # evs"
  by (simp add: pss_run_def split: sum.splits prod.splits)

text \<open>
  C3, amended. The ignore-case flag handed to the content matcher is
  \<^verbatim>\<open>ignore_case\<close> or (\<^verbatim>\<open>smart_case\<close> and the pattern has no uppercase ASCII
  letter outside a backslash escape). With smart-case on and no explicit
  ignore-case, the pattern \<^verbatim>\<open>hello\<close> is searched case-insensitively and
  matches a line \<^verbatim>\<open>Hello\<close>; the pattern \<^verbatim>\<open>Hello\<close> stays case-sensitive and
  does not match a line \<^verbatim>\<open>hello\<close> (the two runs are over the example
  environment, whose engine reads these letter-only patterns literally).
\<close>

theorem smart_case_flag:
  "effective_ignore_case ic sc (Some p) = Inr (ic \<or> (sc \<and> \<not> has_unescaped_upper p)) \<and>
   (finder_setup a = Inr fa \<and> matcher_setup a = Inr ma \<and> pattern a = Some p \<longrightarrow>
      (\<exists>evs. fst (pss_run E a) = New_FileFinder fa # New_ContentMatcher ma # evs) \<and>
      cm_ignore_case ma = (ignore_case a \<or> (smart_case a \<and> \<not> has_unescaped_upper p))) \<and>
   effective_ignore_case False True (Some ''hello'') = Inr True \<and>
   effective_ignore_case False True (Some ''Hello'') = Inr False \<and>
   filter is_output
     (fst (pss_run (one_file_env (''Hello'' @ [newline])) (smart_args ''hello''))) =
     [Start_matches_in_file ''a.py'',
      Matching_line \<lparr>lineno = 1, line = ''Hello'' @ [newline], spans = [(0, 5)]\<rparr>,
      End_matches_in_file ''a.py''] \<and>
   snd (pss_run (one_file_env (''hello'' @ [newline])) (smart_args ''Hello'')) = None \<and>
   filter is_output
     (fst (pss_run (one_file_env (''hello'' @ [newline])) (smart_args ''Hello''))) = []"
proof -
  have f: "effective_ignore_case ic sc (Some p) = Inr (ic \<or> (sc \<and> \<not> has_unescaped_upper p))"
    for ic sc p
    by (simp add: pattern_has_uppercase_iff has_unescaped_upper_iff effective_ignore_case_def)
  have g: "cm_ignore_case ma = (ignore_case a \<or> (smart_case a \<and> \<not> has_unescaped_upper p))"
    if "matcher_setup a = Inr ma" "pattern a = Some p"
    using matcher_setup_ignore_case [OF that(1)] that(2) f by simp
  have e1: "effective_ignore_case False True (Some ''hello'') = Inr True" by code_simp
  have e2: "effective_ignore_case False True (Some ''Hello'') = Inr False" by code_simp
  have r1: "filter is_output
     (fst (pss_run (one_file_env (''Hello'' @ [newline])) (smart_args ''hello''))) =
     [Start_matches_in_file ''a.py'',
      Matching_line \<lparr>lineno = 1, line = ''Hello'' @ [newline], spans = [(0, 5)]\<rparr>,
      End_matches_in_file ''a.py'']" by code_simp
  have r2: "snd (pss_run (one_file_env (''hello'' @ [newline])) (smart_args ''Hello'')) = None"
    by code_simp
  have r3: "filter is_output
     (fst (pss_run (one_file_env (''hello'' @ [newline])) (smart_args ''Hello''))) = []"
    by code_simp
  show ?thesis
    using f g pss_run_second_event e1 e2 r1 r2 r3 by (intro conjI impI) blast+
qed

theorem smart_case_flag_witness:
  "finder_setup (smart_args ''hello'') = Inr default_finder \<and>
   matcher_setup (smart_args ''hello'') = Inr (smart_matcher_args ''hello'' True) \<and>
   pattern (smart_args ''hello'') = Some ''hello'' \<and>
   smart_case (smart_args ''hello'') \<and> \<not> ignore_case (smart_args ''hello'') \<and>
   \<not> has_unescaped_upper ''hello'' \<and>
   cm_ignore_case (smart_matcher_args ''hello'' True) \<and>
   (\<exists>evs. fst (pss_run (one_file_env (''Hello'' @ [newline])) (smart_args ''hello'')) =
      New_FileFinder default_finder # New_ContentMatcher (smart_matcher_args ''hello'' True) # evs)"
proof -
  have h1: "finder_setup (smart_args ''hello'') = Inr default_finder"
    by (simp add: finder_setup_def smart_args_def default_finder_def default_args_def
        ignore_dirs_def ALL_KNOWN_EXTENSIONS_def)
  have h2: "matcher_setup (smart_args ''hello'') = Inr (smart_matcher_args ''hello'' True)"
    by (simp add: matcher_setup_def smart_args_def smart_matcher_args_def default_args_def
        effective_ignore_case_def pattern_has_uppercase_def is_upper_def backslash_def)
  have h3: "pattern (smart_args ''hello'') = Some ''hello'' \<and>
     smart_case (smart_args ''hello'') \<and> \<not> ignore_case (smart_args ''hello'')"
    by (simp add: smart_args_def default_args_def)
  have h4: "\<not> has_unescaped_upper ''hello''" by code_simp
  have h5: "cm_ignore_case (smart_matcher_args ''hello'' True)"
    by (simp add: smart_matcher_args_def)
  show ?thesis
    using smart_case_flag [of False True "''hello''" "smart_args ''hello''" default_finder
        "smart_matcher_args ''hello'' True" "one_file_env (''Hello'' @ [newline])"]
      h1 h2 h3 h4 h5
    by simp
qed

subsection \<open>The main loop\<close>

lemma run_files_append:
  "run_files E m off (xs @ ys) =
     (case run_files E m off xs of
        (evs, Some e) \<Rightarrow> (evs, Some e)
      | (evs, None) \<Rightarrow> (case run_files E m off ys of (evs', r) \<Rightarrow> (evs @ evs', r)))"
  by (induction xs) (auto split: prod.splits option.splits)

lemma process_file_unreadable:
  "file_content E p = None \<Longrightarrow> process_file E m False p = ([], Some (IOError p))"
  by (simp add: process_file_def open_file_def)

lemma run_files_unreadable:
  assumes "snd (run_files E m False pre) = None" and "file_content E p = None"
  shows "run_files E m False (pre @ p # post) = (fst (run_files E m False pre), Some (IOError p))"
  using assms
  by (cases "run_files E m False pre")
     (simp add: run_files_append process_file_unreadable split: prod.splits option.splits)

lemma pss_run_loop:
  assumes "finder_setup a = Inr fa" "matcher_setup a = Inr ma"
    "ContentMatcher (re_compile E) ma = Inr m"
  shows "pss_run E a =
     (New_FileFinder fa # New_ContentMatcher ma
        # fst (run_files E m (only_find_files a) (finder_files E fa)),
      snd (run_files E m (only_find_files a) (finder_files E fa)))"
  using assms by (simp add: pss_run_def split: prod.splits)

lemma run_files_step:
  assumes "snd (run_files E m off pre) = None" and "snd (process_file E m off p) = None"
  shows "run_files E m off (pre @ p # post) =
     (fst (run_files E m off pre) @ fst (process_file E m off p) @ fst (run_files E m off post),
      snd (run_files E m off post))"
  using assms
  by (cases "run_files E m off pre"; cases "process_file E m off p"; cases "run_files E m off post")
     (simp add: run_files_append)

lemma process_file_binary:
  assumes "open_file E p = Inr f" "\<not> known_file_type p" "\<not> fst (istextfile E f)"
  shows "process_file E m False p =
     (Match_file (snd (istextfile E f)) (Some (At_most 1))
        # (if match_file m (snd (istextfile E f)) (Some (At_most 1)) \<noteq> []
           then [Binary_file_matches (binary_message p)] else []),
      None)"
  using assms by (simp add: process_file_def Let_def)

lemma process_file_text:
  assumes "open_file E p = Inr f" "known_file_type p \<or> fst (istextfile E f)"
  shows "process_file E m False p =
     (Match_file (seek0 (if known_file_type p then f else snd (istextfile E f))) None
        # (if match_file m (seek0 (if known_file_type p then f else snd (istextfile E f))) None = []
           then []
           else Start_matches_in_file p
                  # map Matching_line
                      (match_file m (seek0 (if known_file_type p then f else snd (istextfile E f))) None)
                  @ [End_matches_in_file p]),
      None)"
  using assms by (auto simp: process_file_def Let_def)

text \<open>
  C1. In a run that does matching, take a candidate that opens, whose
  extension is not a known one and which \<^verbatim>\<open>istextfile\<close> calls binary, the
  candidates before it raising nothing. Its events are a segment of the
  trace of the run. The only call on the matcher in that segment is one
  \<^verbatim>\<open>match_file\<close> with \<^verbatim>\<open>max_match_count=1\<close>, on the file object as
  \<^verbatim>\<open>istextfile\<close> left it; the output of the segment is the single notice
  that the binary file matches when that probe is not empty, and nothing when
  it is empty: no matching line and no start or end marker.
\<close>

theorem binary_file_probe:
  assumes "finder_setup a = Inr fa" and "matcher_setup a = Inr ma"
    and "ContentMatcher (re_compile E) ma = Inr m"
    and "\<not> only_find_files a"
    and "finder_files E fa = pre @ p # post"
    and "snd (run_files E m False pre) = None"
    and "open_file E p = Inr f" and "\<not> known_file_type p" and "\<not> fst (istextfile E f)"
  shows "pss_run E a =
           (New_FileFinder fa # New_ContentMatcher ma
              # fst (run_files E m False pre) @ fst (process_file E m False p)
              @ fst (run_files E m False post),
            snd (run_files E m False post)) \<and>
         filter (\<lambda>e. \<not> is_output e) (fst (process_file E m False p)) =
           [Match_file (snd (istextfile E f)) (Some (At_most 1))] \<and>
         filter is_output (fst (process_file E m False p)) =
           (if match_file m (snd (istextfile E f)) (Some (At_most 1)) = [] then []
            else [Binary_file_matches (binary_message p)])"
proof -
  have b: "process_file E m False p =
     (Match_file (snd (istextfile E f)) (Some (At_most 1))
        # (if match_file m (snd (istextfile E f)) (Some (At_most 1)) \<noteq> []
           then [Binary_file_matches (binary_message p)] else []),
      None)"
    using assms(7-9) by (rule process_file_binary)
  then have ok: "snd (process_file E m False p) = None" by simp
  have "pss_run E a =
           (New_FileFinder fa # New_ContentMatcher ma
              # fst (run_files E m False pre) @ fst (process_file E m False p)
              @ fst (run_files E m False post),
            snd (run_files E m False post))"
    using pss_run_loop [OF assms(1-3)] assms(4,5) run_files_step [OF assms(6) ok, of post]
    by simp
  then show ?thesis by (simp add: b)
qed

text \<open>
  C2. In a run that does matching, take a candidate that opens and whose
  extension is a known one or which \<^verbatim>\<open>istextfile\<close> calls text, the
  candidates before it raising nothing. The only call on the matcher for it
  is one \<^verbatim>\<open>match_file\<close> without override of the cap, on the file object
  rewound to position zero; when that sequence is empty the file gives no
  output at all, otherwise one start marker, then every record of the
  sequence in its order, then one end marker.
\<close>

theorem text_file_matches:
  assumes "finder_setup a = Inr fa" and "matcher_setup a = Inr ma"
    and "ContentMatcher (re_compile E) ma = Inr m"
    and "\<not> only_find_files a"
    and "finder_files E fa = pre @ p # post"
    and "snd (run_files E m False pre) = None"
    and "open_file E p = Inr f" and "known_file_type p \<or> fst (istextfile E f)"
    and "f0 = seek0 (if known_file_type p then f else snd (istextfile E f))"
  shows "pss_run E a =
           (New_FileFinder fa # New_ContentMatcher ma
              # fst (run_files E m False pre) @ fst (process_file E m False p)
              @ fst (run_files E m False post),
            snd (run_files E m False post)) \<and>
         pos f0 = 0 \<and>
         filter (\<lambda>e. \<not> is_output e) (fst (process_file E m False p)) = [Match_file f0 None] \<and>
         filter is_output (fst (process_file E m False p)) =
           (if match_file m f0 None = [] then []
            else Start_matches_in_file p # map Matching_line (match_file m f0 None)
                   @ [End_matches_in_file p])"
proof -
  have b: "process_file E m False p =
     (Match_file f0 None
        # (if match_file m f0 None = [] then []
           else Start_matches_in_file p # map Matching_line (match_file m f0 None)
                  @ [End_matches_in_file p]),
      None)"
    using process_file_text [OF assms(7,8), of m] assms(9) by simp
  then have ok: "snd (process_file E m False p) = None" by simp
  have r: "pss_run E a =
           (New_FileFinder fa # New_ContentMatcher ma
              # fst (run_files E m False pre) @ fst (process_file E m False p)
              @ fst (run_files E m False post),
            snd (run_files E m False post))"
    using pss_run_loop [OF assms(1-3)] assms(4,5) run_files_step [OF assms(6) ok, of post]
    by simp
  have o: "filter is_output (map Matching_line xs) = map Matching_line xs" for xs
    by (induction xs) simp_all
  have n: "filter (\<lambda>e. \<not> is_output e) (map Matching_line xs) = []" for xs
    by (induction xs) simp_all
  have p0: "pos f0 = 0" using assms(9) by (simp add: seek0_def)
  show ?thesis using r p0 by (simp add: b o n)
qed

theorem binary_file_probe_witness:
  "finder_setup (all_types_args ''import'') = Inr all_types_finder \<and>
   matcher_setup (all_types_args ''import'') = Inr import_args \<and>
   ContentMatcher (re_compile tree_env) import_args = Inr (import_matcher False Unbounded) \<and>
   \<not> only_find_files (all_types_args ''import'') \<and>
   finder_files tree_env all_types_finder = [''root/a.py''] @ ''root/b.bin'' # [''root/c.txt''] \<and>
   snd (run_files tree_env (import_matcher False Unbounded) False [''root/a.py'']) = None \<and>
   open_file tree_env ''root/b.bin'' = Inr (opened ''root/b.bin'' b_bin) \<and>
   \<not> known_file_type ''root/b.bin'' \<and>
   \<not> fst (istextfile tree_env (opened ''root/b.bin'' b_bin)) \<and>
   match_file (import_matcher False Unbounded)
     (snd (istextfile tree_env (opened ''root/b.bin'' b_bin))) (Some (At_most 1)) \<noteq> [] \<and>
   filter is_output
     (fst (process_file tree_env (import_matcher False Unbounded) False ''root/b.bin'')) =
     [Binary_file_matches (''Binary file root/b.bin matches'' @ [newline])]"
proof -
  have h1: "finder_setup (all_types_args ''import'') = Inr all_types_finder"
    and h2: "matcher_setup (all_types_args ''import'') = Inr import_args"
    and h3: "ContentMatcher (re_compile tree_env) import_args = Inr (import_matcher False Unbounded)"
    and h4: "\<not> only_find_files (all_types_args ''import'')"
    by (simp_all add: finder_setup_def all_types_args_def all_types_finder_def default_args_def
        ignore_dirs_def matcher_setup_def effective_ignore_case_def import_args_def
        ContentMatcher_def tree_env_def example_env_def plain_compile_def import_matcher_def)
  have h5: "finder_files tree_env all_types_finder = [''root/a.py''] @ ''root/b.bin'' # [''root/c.txt'']"
    by (simp add: tree_env_def example_env_def)
  have h6: "snd (run_files tree_env (import_matcher False Unbounded) False [''root/a.py'']) = None"
    by code_simp
  have h7: "open_file tree_env ''root/b.bin'' = Inr (opened ''root/b.bin'' b_bin)"
    by (simp add: open_file_def tree_env_def example_env_def opened_def)
  have h8: "\<not> known_file_type ''root/b.bin''" by code_simp
  have h9: "\<not> fst (istextfile tree_env (opened ''root/b.bin'' b_bin))" by code_simp
  have m: "match_file (import_matcher False Unbounded)
     (snd (istextfile tree_env (opened ''root/b.bin'' b_bin))) (Some (At_most 1)) \<noteq> []"
    by code_simp
  show ?thesis
    using binary_file_probe [OF h1 h2 h3 h4 h5 h6 h7 h8 h9] h1 h2 h3 h4 h5 h6 h7 h8 h9 m
    by (simp add: binary_message_def)
qed

theorem text_file_matches_witness:
  "finder_setup (all_types_args ''import'') = Inr all_types_finder \<and>
   matcher_setup (all_types_args ''import'') = Inr import_args \<and>
   ContentMatcher (re_compile tree_env) import_args = Inr (import_matcher False Unbounded) \<and>
   \<not> only_find_files (all_types_args ''import'') \<and>
   finder_files tree_env all_types_finder = [] @ ''root/a.py'' # [''root/b.bin'', ''root/c.txt''] \<and>
   finder_files tree_env all_types_finder = [''root/a.py'', ''root/b.bin''] @ ''root/c.txt'' # [] \<and>
   snd (run_files tree_env (import_matcher False Unbounded) False []) = None \<and>
   snd (run_files tree_env (import_matcher False Unbounded) False [''root/a.py'', ''root/b.bin'']) = None \<and>
   open_file tree_env ''root/a.py'' = Inr (opened ''root/a.py'' a_py) \<and>
   open_file tree_env ''root/c.txt'' = Inr (opened ''root/c.txt'' (''pass'' @ [newline])) \<and>
   known_file_type ''root/a.py'' \<and>
   \<not> known_file_type ''root/c.txt'' \<and>
   fst (istextfile tree_env (opened ''root/c.txt'' (''pass'' @ [newline]))) \<and>
   filter is_output
     (fst (process_file tree_env (import_matcher False Unbounded) False ''root/a.py'')) =
     [Start_matches_in_file ''root/a.py'',
      Matching_line \<lparr>lineno = 1, line = ''import os'' @ [newline], spans = [(0, 6)]\<rparr>,
      End_matches_in_file ''root/a.py''] \<and>
   filter is_output
     (fst (process_file tree_env (import_matcher False Unbounded) False ''root/c.txt'')) = []"
proof -
  have h1: "finder_setup (all_types_args ''import'') = Inr all_types_finder"
    and h2: "matcher_setup (all_types_args ''import'') = Inr import_args"
    and h3: "ContentMatcher (re_compile tree_env) import_args = Inr (import_matcher False Unbounded)"
    and h4: "\<not> only_find_files (all_types_args ''import'')"
    by (simp_all add: finder_setup_def all_types_args_def all_types_finder_def default_args_def
        ignore_dirs_def matcher_setup_def effective_ignore_case_def import_args_def
        ContentMatcher_def tree_env_def example_env_def plain_compile_def import_matcher_def)
  have h5: "finder_files tree_env all_types_finder = [] @ ''root/a.py'' # [''root/b.bin'', ''root/c.txt'']"
    and h5': "finder_files tree_env all_types_finder = [''root/a.py'', ''root/b.bin''] @ ''root/c.txt'' # []"
    by (simp_all add: tree_env_def example_env_def)
  have h6: "snd (run_files tree_env (import_matcher False Unbounded) False []) = None"
    by simp
  have h6': "snd (run_files tree_env (import_matcher False Unbounded) False [''root/a.py'', ''root/b.bin'']) = None"
    by code_simp
  have h7: "open_file tree_env ''root/a.py'' = Inr (opened ''root/a.py'' a_py)"
    and h7': "open_file tree_env ''root/c.txt'' = Inr (opened ''root/c.txt'' (''pass'' @ [newline]))"
    by (simp_all add: open_file_def tree_env_def example_env_def opened_def)
  have k: "known_file_type ''root/a.py''" by code_simp
  have k': "\<not> known_file_type ''root/c.txt''" by code_simp
  have t': "fst (istextfile tree_env (opened ''root/c.txt'' (''pass'' @ [newline])))" by code_simp
  have h8: "known_file_type ''root/a.py'' \<or> fst (istextfile tree_env (opened ''root/a.py'' a_py))"
    using k by simp
  have h8': "known_file_type ''root/c.txt'' \<or>
      fst (istextfile tree_env (opened ''root/c.txt'' (''pass'' @ [newline])))"
    using t' by simp
  have m: "match_file (import_matcher False Unbounded) (seek0 (opened ''root/a.py'' a_py)) None =
      [\<lparr>lineno = 1, line = ''import os'' @ [newline], spans = [(0, 6)]\<rparr>]"
    by code_simp
  have m': "match_file (import_matcher False Unbounded)
      (seek0 (snd (istextfile tree_env (opened ''root/c.txt'' (''pass'' @ [newline]))))) None = []"
    by code_simp
  show ?thesis
    using text_file_matches [OF h1 h2 h3 h4 h5 h6 h7 h8 refl]
      text_file_matches [OF h1 h2 h3 h4 h5' h6' h7' h8' refl]
      h1 h2 h3 h4 h5 h5' h6 h6' h7 h7' k k' t' m m'
    by simp
qed

text \<open>
  The claim C4 fails: \<^verbatim>\<open>open\<close> is called with no handler around it. In the
  run below the second of three candidates cannot be opened; the run ends
  with the \<^verbatim>\<open>IOError\<close>, and the third candidate, which alone would give a
  matching line, gives nothing.
\<close>

theorem unreadable_file_counterexample:
  "finder_files gone_env default_finder = [''root/a.py'', ''root/gone.py'', ''root/b.py''] \<and>
   file_content gone_env ''root/gone.py'' = None \<and>
   snd (pss_run gone_env import_default_args) = Some (IOError ''root/gone.py'') \<and>
   filter is_output (fst (pss_run gone_env import_default_args)) =
     [Start_matches_in_file ''root/a.py'',
      Matching_line \<lparr>lineno = 1, line = ''import os'' @ [newline], spans = [(0, 6)]\<rparr>,
      End_matches_in_file ''root/a.py''] \<and>
   filter is_output
     (fst (pss_run (example_env [''root/b.py''] [(''root/b.py'', a_py)]) import_default_args)) =
     [Start_matches_in_file ''root/b.py'',
      Matching_line \<lparr>lineno = 1, line = ''import os'' @ [newline], spans = [(0, 6)]\<rparr>,
      End_matches_in_file ''root/b.py'']"
  by code_simp

text \<open>
  C4, amended. In a run that does matching, when a candidate cannot be
  opened, the candidates before it raising nothing, the \<^verbatim>\<open>IOError\<close> of
  \<^verbatim>\<open>open\<close> ends the run: the events of the run are those of the candidates
  before it, and no later candidate is opened, matched or reported.
\<close>

theorem unreadable_file_aborts_run:
  assumes "finder_setup a = Inr fa" and "matcher_setup a = Inr ma"
    and "ContentMatcher (re_compile E) ma = Inr m"
    and "\<not> only_find_files a"
    and "finder_files E fa = pre @ p # post"
    and "snd (run_files E m False pre) = None"
    and "file_content E p = None"
  shows "pss_run E a =
           (New_FileFinder fa # New_ContentMatcher ma # fst (run_files E m False pre),
            Some (IOError p))"
  using pss_run_loop [OF assms(1-3)] assms(4,5) run_files_unreadable [OF assms(6,7), of post]
  by simp

theorem unreadable_file_aborts_run_witness:
  "finder_setup import_default_args = Inr default_finder \<and>
   matcher_setup import_default_args = Inr import_args \<and>
   ContentMatcher (re_compile gone_env) import_args = Inr (import_matcher False Unbounded) \<and>
   \<not> only_find_files import_default_args \<and>
   finder_files gone_env default_finder = [''root/a.py''] @ ''root/gone.py'' # [''root/b.py''] \<and>
   snd (run_files gone_env (import_matcher False Unbounded) False [''root/a.py'']) = None \<and>
   file_content gone_env ''root/gone.py'' = None \<and>
   pss_run gone_env import_default_args =
     (New_FileFinder default_finder # New_ContentMatcher import_args
        # fst (run_files gone_env (import_matcher False Unbounded) False [''root/a.py'']),
      Some (IOError ''root/gone.py''))"
proof -
  have h1: "finder_setup import_default_args = Inr default_finder"
    and h2: "matcher_setup import_default_args = Inr import_args"
    and h3: "ContentMatcher (re_compile gone_env) import_args = Inr (import_matcher False Unbounded)"
    and h4: "\<not> only_find_files import_default_args"
    by (simp_all add: finder_setup_def import_default_args_def default_finder_def default_args_def
        ignore_dirs_def matcher_setup_def effective_ignore_case_def import_args_def
        ContentMatcher_def gone_env_def example_env_def plain_compile_def import_matcher_def
        ALL_KNOWN_EXTENSIONS_def)
  have h5: "finder_files gone_env default_finder = [''root/a.py''] @ ''root/gone.py'' # [''root/b.py'']"
    by (simp add: gone_env_def example_env_def)
  have h6: "snd (run_files gone_env (import_matcher False Unbounded) False [''root/a.py'']) = None"
    by code_simp
  have h7: "file_content gone_env ''root/gone.py'' = None"
    by (simp add: gone_env_def example_env_def)
  show ?thesis
    using unreadable_file_aborts_run [OF h1 h2 h3 h4 h5 h6 h7] h1 h2 h3 h4 h5 h6 h7 by simp
qed

subsection \<open>Only finding files\<close>

text \<open>
  C7. In only-find-files mode every candidate path should be reported with
  \<^verbatim>\<open>found_filename\<close> and no content matcher be needed; the script starts
  this mode without a pattern (\<^verbatim>\<open>pattern = None\<close>). The code sets up the
  content matcher before the loop whatever the mode. With smart-case and no
  explicit ignore-case the scan of the absent pattern raises \<^verbatim>\<open>TypeError\<close>
  in every environment: only the finder has been constructed, and none of the
  candidates is reported. Without smart-case the constructor of the content
  matcher is called, with the pattern \<^verbatim>\<open>None\<close>.
\<close>

theorem find_files_absent_pattern:
  "only_find_files find_smart_args \<and> pattern find_smart_args = None \<and>
   pss_run E find_smart_args = ([New_FileFinder default_finder], Some TypeError) \<and>
   finder_files gone_env default_finder = [''root/a.py'', ''root/gone.py'', ''root/b.py''] \<and>
   filter is_output (fst (pss_run gone_env find_smart_args)) = [] \<and>
   only_find_files find_plain_args \<and> pattern find_plain_args = None \<and>
   (\<exists>evs r. pss_run E find_plain_args =
      (New_FileFinder default_finder # New_ContentMatcher absent_pattern_args # evs, r)) \<and>
   cm_pattern absent_pattern_args = None"
proof -
  have s1: "finder_setup find_smart_args = Inr default_finder"
    and s2: "matcher_setup find_smart_args = Inl TypeError"
    and s3: "only_find_files find_smart_args \<and> pattern find_smart_args = None"
    by (simp_all add: finder_setup_def find_smart_args_def default_finder_def default_args_def
        ignore_dirs_def matcher_setup_def effective_ignore_case_def ALL_KNOWN_EXTENSIONS_def)
  have r: "pss_run E find_smart_args = ([New_FileFinder default_finder], Some TypeError)" for E
    by (simp add: pss_run_def s1 s2)
  have p1: "finder_setup find_plain_args = Inr default_finder"
    and p2: "matcher_setup find_plain_args = Inr absent_pattern_args"
    and p3: "only_find_files find_plain_args \<and> pattern find_plain_args = None"
    by (simp_all add: finder_setup_def find_plain_args_def default_finder_def default_args_def
        ignore_dirs_def matcher_setup_def effective_ignore_case_def ALL_KNOWN_EXTENSIONS_def
        absent_pattern_args_def)
  have q: "\<exists>evs r. pss_run E find_plain_args =
      (New_FileFinder default_finder # New_ContentMatcher absent_pattern_args # evs, r)"
    by (simp add: pss_run_def p1 p2 split: sum.splits prod.splits)
  have f: "finder_files gone_env default_finder = [''root/a.py'', ''root/gone.py'', ''root/b.py'']"
    by (simp add: gone_env_def example_env_def)
  have c: "cm_pattern absent_pattern_args = None" by (simp add: absent_pattern_args_def)
  show ?thesis using s3 r [of E] r [of gone_env] f p3 q c by simp
qed

subsection \<open>Unknown type names\<close>

text \<open>
  The claim C8 fails when the type names are not looked up: with a file-name
  pattern given, the run below includes a type that is not in the table and
  still constructs the finder, traverses and reports matches.
\<close>

theorem unknown_type_counterexample:
  "include_types pattern_type_args = [''nosuch''] \<and>
   TYPE_EXTENSION_MAP ''nosuch'' = None \<and>
   snd (pss_run tree_env pattern_type_args) = None \<and>
   filter is_output (fst (pss_run tree_env pattern_type_args)) =
     [Start_matches_in_file ''root/a.py'',
      Matching_line \<lparr>lineno = 1, line = ''import os'' @ [newline], spans = [(0, 6)]\<rparr>,
      End_matches_in_file ''root/a.py'',
      Binary_file_matches (''Binary file root/b.bin matches'' @ [newline])]"
  by code_simp

lemma update_from_types_cases:
  "(\<exists>t' \<in> set ts. TYPE_EXTENSION_MAP t' = None \<and> update_from_types ts acc = Inl (KeyError t')) \<or>
   (\<exists>s. update_from_types ts acc = Inr s)"
  by (induction ts arbitrary: acc) (auto split: option.splits)

lemma update_from_types_fails:
  "t \<in> set ts \<Longrightarrow> TYPE_EXTENSION_MAP t = None \<Longrightarrow>
   \<exists>t' \<in> set ts. TYPE_EXTENSION_MAP t' = None \<and> update_from_types ts acc = Inl (KeyError t')"
  by (induction ts arbitrary: acc) (auto split: option.splits)

lemma finder_setup_unknown_type:
  assumes "type_pattern a = None" "\<not> search_all_files_and_dirs a" "\<not> search_all_types a"
    and "t \<in> set (include_types a) \<union> set (exclude_types a)" and "TYPE_EXTENSION_MAP t = None"
  shows "\<exists>t' \<in> set (include_types a) \<union> set (exclude_types a).
           TYPE_EXTENSION_MAP t' = None \<and> finder_setup a = Inl (KeyError t')"
proof (cases "t \<in> set (include_types a)")
  case True
  then have ne: "include_types a \<noteq> []" by auto
  from update_from_types_fails [OF True assms(5), of "{}"]
  obtain t' where "t' \<in> set (include_types a)" "TYPE_EXTENSION_MAP t' = None"
    "update_from_types (include_types a) {} = Inl (KeyError t')" by blast
  then show ?thesis using assms(1-3) ne by (auto simp: finder_setup_def)
next
  case False
  with assms(4) have ex: "t \<in> set (exclude_types a)" by simp
  from update_from_types_fails [OF ex assms(5), of "{}"]
  obtain t' where t': "t' \<in> set (exclude_types a)" "TYPE_EXTENSION_MAP t' = None"
    "update_from_types (exclude_types a) {} = Inl (KeyError t')" by blast
  from update_from_types_cases [of "include_types a" "{}"]
  show ?thesis
  proof
    assume "\<exists>t' \<in> set (include_types a). TYPE_EXTENSION_MAP t' = None \<and>
       update_from_types (include_types a) {} = Inl (KeyError t')"
    then obtain u where u: "u \<in> set (include_types a)" "TYPE_EXTENSION_MAP u = None"
      "update_from_types (include_types a) {} = Inl (KeyError u)" by blast
    then have "include_types a \<noteq> []" by auto
    then show ?thesis using assms(1-3) u by (auto simp: finder_setup_def)
  next
    assume "\<exists>s. update_from_types (include_types a) {} = Inr s"
    then obtain s where "update_from_types (include_types a) {} = Inr s" by blast
    then show ?thesis using assms(1-3) t' by (auto simp: finder_setup_def)
  qed
qed

lemma finder_setup_no_lookup:
  assumes "type_pattern a \<noteq> None \<or> search_all_files_and_dirs a \<or> search_all_types a"
  shows "\<exists>fa. finder_setup a = Inr fa"
  using assms by (auto simp: finder_setup_def split: option.splits)

text \<open>
  C8, amended. Let \<^verbatim>\<open>include_types\<close> or \<^verbatim>\<open>exclude_types\<close> hold a name absent
  from the table. When no file-name pattern is given and neither
  \<^verbatim>\<open>search_all_types\<close> nor \<^verbatim>\<open>search_all_files_and_dirs\<close> is set, the run
  fails with the \<^verbatim>\<open>KeyError\<close> of such a name before anything is constructed:
  no finder, no matcher, no traversal. In the other cases the type names are
  not looked up and the finder is constructed.
\<close>

theorem unknown_type_name:
  assumes "t \<in> set (include_types a) \<union> set (exclude_types a)" and "TYPE_EXTENSION_MAP t = None"
  shows "(type_pattern a = None \<and> \<not> search_all_files_and_dirs a \<and> \<not> search_all_types a \<longrightarrow>
            (\<exists>t' \<in> set (include_types a) \<union> set (exclude_types a).
               TYPE_EXTENSION_MAP t' = None \<and> pss_run E a = ([], Some (KeyError t')))) \<and>
         (type_pattern a \<noteq> None \<or> search_all_files_and_dirs a \<or> search_all_types a \<longrightarrow>
            (\<exists>fa evs. finder_setup a = Inr fa \<and> fst (pss_run E a) = New_FileFinder fa # evs))"
proof (intro conjI impI)
  assume g: "type_pattern a = None \<and> \<not> search_all_files_and_dirs a \<and> \<not> search_all_types a"
  then obtain t' where "t' \<in> set (include_types a) \<union> set (exclude_types a)"
    "TYPE_EXTENSION_MAP t' = None" "finder_setup a = Inl (KeyError t')"
    using finder_setup_unknown_type [OF _ _ _ assms] by blast
  then show "\<exists>t' \<in> set (include_types a) \<union> set (exclude_types a).
               TYPE_EXTENSION_MAP t' = None \<and> pss_run E a = ([], Some (KeyError t'))"
    by (auto simp: pss_run_def)
next
  assume "type_pattern a \<noteq> None \<or> search_all_files_and_dirs a \<or> search_all_types a"
  then obtain fa where fa: "finder_setup a = Inr fa"
    using finder_setup_no_lookup by blast
  with pss_run_first_event [OF fa, of E]
  show "\<exists>fa evs. finder_setup a = Inr fa \<and> fst (pss_run E a) = New_FileFinder fa # evs"
    by blast
qed

theorem unknown_type_name_witness:
  "''nosuch'' \<in> set (include_types nosuch_args) \<union> set (exclude_types nosuch_args) \<and>
   TYPE_EXTENSION_MAP ''nosuch'' = None \<and>
   type_pattern nosuch_args = None \<and> \<not> search_all_files_and_dirs nosuch_args \<and>
   \<not> search_all_types nosuch_args \<and>
   pss_run tree_env nosuch_args = ([], Some (KeyError ''nosuch''))"
proof -
  have h1: "''nosuch'' \<in> set (include_types nosuch_args) \<union> set (exclude_types nosuch_args)"
    by (simp add: nosuch_args_def default_args_def)
  have h2: "TYPE_EXTENSION_MAP ''nosuch'' = None"
    by (simp add: TYPE_EXTENSION_MAP_def TYPE_EXTENSION_ITEMS_def)
  have g: "type_pattern nosuch_args = None \<and> \<not> search_all_files_and_dirs nosuch_args \<and>
     \<not> search_all_types nosuch_args"
    by (simp add: nosuch_args_def default_args_def)
  have r: "pss_run tree_env nosuch_args = ([], Some (KeyError ''nosuch''))"
    by code_simp
  show ?thesis
    using unknown_type_name [OF h1 h2, of tree_env] h1 h2 g r by simp
qed

end
